theory Spec2Isabelle
  imports Complex_Main "HOL-Library.Multiset"
begin

section \<open>The experiment driver of the notebook\<close>

text \<open>
  The notebook \<^verbatim>\<open>hyperparameters.ipynb\<close> calls an approximate nearest-neighbour
  library and records accuracies. The constants of its third code cell:
\<close>

definition n_samples :: nat where "n_samples = 10000"
definition n_features :: nat where "n_features = 100"
definition n_queries :: nat where "n_queries = 30"
definition n_iter :: nat where "n_iter = 10"

definition n_estimators_for_candidate_value :: "nat list" where
  "n_estimators_for_candidate_value = [1, 5, 10]"

text \<open>\<^verbatim>\<open>np.linspace(10, 500, 5).astype(np.int)\<close>: the five points
  \<open>10 + i * (500 - 10) / 4\<close>, each truncated to an integer.\<close>

definition n_candidates_values :: "nat list" where
  "n_candidates_values = map (\<lambda>i. 10 + (i * (500 - 10)) div 4) [0..<5]"

definition n_estimators_values :: "nat list" where
  "n_estimators_values = [1, 5, 10, 20, 30, 40, 50]"

subsection \<open>Constructor calls\<close>

text \<open>
  The keyword arguments a call of \<^verbatim>\<open>LSHForest(...)\<close> passes. A keyword that is absent
  from the list is left to the library's default.
\<close>

datatype kwarg =
    N_estimators nat
  | N_candidates nat
  | N_neighbors nat
  | Random_state nat

text \<open>Cell 4: \<^verbatim>\<open>LSHForest(n_estimators=value, n_candidates=n_candidates,
  n_neighbors=1, random_state=seed)\<close>.\<close>

definition candidates_sweep_ctor :: "nat \<Rightarrow> nat \<Rightarrow> nat \<Rightarrow> kwarg list" where
  "candidates_sweep_ctor value n_candidates seed =
     [N_estimators value, N_candidates n_candidates, N_neighbors 1, Random_state seed]"

text \<open>Cell 5: \<^verbatim>\<open>LSHForest(n_estimators=n_estimators, n_neighbors=1)\<close>.\<close>

definition estimators_sweep_ctor :: "nat \<Rightarrow> kwarg list" where
  "estimators_sweep_ctor n_estimators = [N_estimators n_estimators, N_neighbors 1]"

fun is_seed :: "kwarg \<Rightarrow> bool" where
  "is_seed (Random_state s) = True"
| "is_seed _ = False"

definition threads_seed :: "kwarg list \<Rightarrow> bool" where
  "threads_seed kws = list_ex is_seed kws"

text \<open>Every constructor call the two sweeps make, in program order.\<close>

definition index_constructions :: "kwarg list list" where
  "index_constructions =
     concat (map (\<lambda>value. concat (map (\<lambda>n_candidates.
        map (\<lambda>seed. candidates_sweep_ctor value n_candidates seed) [0..<n_iter])
        n_candidates_values)) n_estimators_for_candidate_value)
     @ map estimators_sweep_ctor n_estimators_values"

subsection \<open>Index arrays\<close>

text \<open>
  A two-dimensional index array is a list of rows. \<^verbatim>\<open>np.equal\<close> compares
  elementwise after broadcasting: along each axis the two lengths must agree or one of
  them must be 1, otherwise the call raises \<^verbatim>\<open>ValueError\<close>.
\<close>

datatype np_error = ValueError

type_synonym ndarray = "nat list list"

definition nrows :: "'a list list \<Rightarrow> nat" where
  "nrows a = length a"

definition ncols :: "'a list list \<Rightarrow> nat" where
  "ncols a = (case a of [] \<Rightarrow> 0 | r # _ \<Rightarrow> length r)"

definition broadcast_dim :: "nat \<Rightarrow> nat \<Rightarrow> nat option" where
  "broadcast_dim m n =
     (if m = n then Some m else if m = 1 then Some n else if n = 1 then Some m else None)"

definition stretch :: "nat \<Rightarrow> 'a list \<Rightarrow> 'a list" where
  "stretch n xs = (case xs of [x] \<Rightarrow> replicate n x | _ \<Rightarrow> xs)"

definition np_equal :: "ndarray \<Rightarrow> ndarray \<Rightarrow> np_error + bool list list" where
  "np_equal a b =
     (case (broadcast_dim (nrows a) (nrows b), broadcast_dim (ncols a) (ncols b)) of
        (Some r, Some c) \<Rightarrow>
          Inr (map2 (\<lambda>x y. map2 (=) x y)
                 (stretch r (map (stretch c) a)) (stretch r (map (stretch c) b)))
      | _ \<Rightarrow> Inl ValueError)"

text \<open>\<^verbatim>\<open>np.sum\<close> of a boolean array counts its true entries.\<close>

definition np_sum :: "bool list list \<Rightarrow> nat" where
  "np_sum m = sum_list (map (\<lambda>r. length (filter id r)) m)"

subsection \<open>Double-precision arithmetic\<close>

text \<open>
  The accuracies are \<^verbatim>\<open>float64\<close> numbers. A finite double is modelled by the real number
  it denotes, and every arithmetic operation returns the exact result rounded to the
  nearest double, ties to the even significand (\<open>binary64\<close>). \<open>exponent x\<close> is the \<open>e\<close>
  with \<open>2 ^ e \<le> x < 2 ^ (e + 1)\<close> for a positive \<open>x\<close>, found by halving or doubling;
  \<open>quantum x\<close> is the exponent of the unit in the last place of the 53-bit significand,
  not below that of the subnormal numbers. Results of magnitude \<open>2 ^ 1024\<close> and above
  overflow in the machine; the program, whose numbers lie between 0 and 30, never reaches
  them, and they are not modelled.
\<close>

function halvings :: "real \<Rightarrow> nat" where
  "halvings x = (if x < 2 then 0 else Suc (halvings (x / 2)))"
  by pat_completeness auto
termination
proof (relation "measure (\<lambda>x. nat \<lfloor>x\<rfloor>)")
  show "wf (measure (\<lambda>x::real. nat \<lfloor>x\<rfloor>))" by simp
next
  fix x :: real
  assume "\<not> x < 2"
  then have "2 \<le> x" by simp
  then have "\<lfloor>x / 2\<rfloor> < \<lfloor>x\<rfloor>" "0 < \<lfloor>x\<rfloor>" by linarith+
  then show "(x / 2, x) \<in> measure (\<lambda>x. nat \<lfloor>x\<rfloor>)" by simp
qed

function doublings :: "real \<Rightarrow> nat" where
  "doublings x = (if x \<le> 0 \<or> 1 \<le> x then 0 else Suc (doublings (2 * x)))"
  by pat_completeness auto
termination
proof (relation "measure (\<lambda>x. nat \<lceil>1 / x\<rceil>)")
  show "wf (measure (\<lambda>x::real. nat \<lceil>1 / x\<rceil>))" by simp
next
  fix x :: real
  assume "\<not> (x \<le> 0 \<or> 1 \<le> x)"
  then have x: "0 < x" "x < 1" by simp_all
  then have y: "1 < 1 / x" by simp
  define y where "y = 1 / x"
  have y1: "1 < y" using y by (simp add: y_def)
  have "1 / (2 * x) = y / 2" by (simp add: y_def)
  moreover have "\<lceil>y / 2\<rceil> < \<lceil>y\<rceil>"
  proof (cases "y \<le> 2")
    case True
    then have "\<lceil>y / 2\<rceil> \<le> 1" by (simp add: ceiling_le_iff)
    moreover have "1 < \<lceil>y\<rceil>" using y1 by (simp add: less_ceiling_iff)
    ultimately show ?thesis by (rule le_less_trans)
  next
    case False
    have "of_int \<lceil>y / 2\<rceil> < y / 2 + 1" by linarith
    also have "\<dots> \<le> y" using False by simp
    also have "\<dots> \<le> of_int \<lceil>y\<rceil>" by linarith
    finally show ?thesis by simp
  qed
  moreover have "0 < \<lceil>y\<rceil>" using y1 by (simp add: less_ceiling_iff)
  ultimately have "\<lceil>1 / (2 * x)\<rceil> < \<lceil>1 / x\<rceil>" "0 < \<lceil>1 / x\<rceil>"
    by (simp_all only: y_def)
  then show "(2 * x, x) \<in> measure (\<lambda>x. nat \<lceil>1 / x\<rceil>)"
    by (simp only: in_measure zless_nat_conj)
qed

declare halvings.simps [simp del]
declare doublings.simps [simp del]

definition exponent :: "real \<Rightarrow> int" where
  "exponent x = (if 1 \<le> x then int (halvings x) else - int (doublings x))"

definition rne :: "real \<Rightarrow> int" where
  "rne m = (let f = \<lfloor>m\<rfloor> in
     if m - of_int f < 1 / 2 then f
     else if 1 / 2 < m - of_int f then f + 1
     else if even f then f else f + 1)"

definition quantum :: "real \<Rightarrow> int" where
  "quantum x = max (exponent \<bar>x\<bar>) (- 1022) - 52"

definition binary64 :: "real \<Rightarrow> real" where
  "binary64 x =
     (if x = 0 then 0
      else sgn x * of_int (rne (\<bar>x\<bar> / 2 powi quantum x)) * 2 powi quantum x)"

text \<open>
  A summation order: which numbers are added to which, each addition rounding its result.
  \<open>terms t\<close> are the numbers added and \<open>fl_sum t\<close> is the double the additions produce.
\<close>

datatype sum_order = Term real | Add sum_order sum_order

fun terms :: "sum_order \<Rightarrow> real list" where
  "terms (Term x) = [x]"
| "terms (Add l r) = terms l @ terms r"

fun fl_sum :: "sum_order \<Rightarrow> real" where
  "fl_sum (Term x) = x"
| "fl_sum (Add l r) = binary64 (fl_sum l + fl_sum r)"

subsection \<open>The accuracy of one trial and the mean\<close>

text \<open>
  \<^verbatim>\<open>np.sum(np.equal(neighbors_approx, neighbors_exact)) / n_queries\<close>, with true
  division (\<^verbatim>\<open>from __future__ import division\<close>): the count and \<open>n_queries\<close> are
  integers below \<open>2 ^ 53\<close>, so they convert to doubles unchanged, and the quotient is
  rounded once.
\<close>

definition accuracy :: "ndarray \<Rightarrow> ndarray \<Rightarrow> np_error + real" where
  "accuracy neighbors_approx neighbors_exact =
     (case np_equal neighbors_approx neighbors_exact of
        Inl e \<Rightarrow> Inl e
      | Inr eq \<Rightarrow> Inr (binary64 (real (np_sum eq) / real n_queries)))"

text \<open>
  \<^verbatim>\<open>np.mean\<close> of a list of doubles: the entries are added with rounded additions and
  the sum is divided by the number of entries, rounded once more; the mean of no entries is
  \<^verbatim>\<open>nan\<close>. The order in which the library adds is its own: it is the parameter
  \<open>order\<close>, which maps the list to the summation order used for it.
\<close>

datatype np_float = Finite real | NaN

definition np_mean :: "(real list \<Rightarrow> sum_order) \<Rightarrow> real list \<Rightarrow> np_float" where
  "np_mean order xs =
     (if xs = [] then NaN
      else Finite (binary64 (fl_sum (order xs) / real (length xs))))"

text \<open>Running a loop body over a list stops at the first exception.\<close>

fun for_each :: "('a \<Rightarrow> 'e + 'b) \<Rightarrow> 'a list \<Rightarrow> 'e + 'b list" where
  "for_each f [] = Inr []"
| "for_each f (x # xs) =
     (case f x of
        Inl e \<Rightarrow> Inl e
      | Inr y \<Rightarrow> (case for_each f xs of Inl e \<Rightarrow> Inl e | Inr ys \<Rightarrow> Inr (y # ys)))"

subsection \<open>The two sweeps\<close>

text \<open>
  The library is a parameter: \<open>lsh kws\<close> is the array
  \<^verbatim>\<open>LSHForest(**kws).fit(X_index).kneighbors(X_query, return_distance=False)\<close>, and
  \<open>neighbors_exact\<close> the array the brute-force \<^verbatim>\<open>NearestNeighbors\<close> returned. No two
  constructor calls of the program pass the same keywords, so every run of the two cells
  is described by one such function, also where the library draws on a random state of
  its own. The standard deviations of cell 4 (\<^verbatim>\<open>stds_accuracies\<close>) are computed from
  the same list \<open>accuracy_c\<close> and are not modelled.
\<close>

definition accuracy_c :: "(kwarg list \<Rightarrow> ndarray) \<Rightarrow> ndarray \<Rightarrow> nat \<Rightarrow> nat \<Rightarrow> np_error + real list" where
  "accuracy_c lsh neighbors_exact value n_candidates =
     for_each (\<lambda>seed. accuracy (lsh (candidates_sweep_ctor value n_candidates seed)) neighbors_exact)
       [0..<n_iter]"

definition accuracies_c ::
    "(real list \<Rightarrow> sum_order) \<Rightarrow> (kwarg list \<Rightarrow> ndarray) \<Rightarrow> ndarray \<Rightarrow> np_error + np_float list list" where
  "accuracies_c order lsh neighbors_exact =
     for_each (\<lambda>value.
        for_each (\<lambda>n_candidates.
           (case accuracy_c lsh neighbors_exact value n_candidates of
              Inl e \<Rightarrow> Inl e
            | Inr acc \<Rightarrow> Inr (np_mean order acc)))
          n_candidates_values)
       n_estimators_for_candidate_value"

definition accuracies_trees :: "(kwarg list \<Rightarrow> ndarray) \<Rightarrow> ndarray \<Rightarrow> np_error + real list" where
  "accuracies_trees lsh neighbors_exact =
     for_each (\<lambda>n_estimators. accuracy (lsh (estimators_sweep_ctor n_estimators)) neighbors_exact)
       n_estimators_values"

text \<open>An index array with one row per query and a single column (\<^verbatim>\<open>n_neighbors=1\<close>).\<close>

definition top1_shape :: "ndarray \<Rightarrow> bool" where
  "top1_shape a = (nrows a = n_queries \<and> list_all (\<lambda>r. length r = 1) a)"

text \<open>
  The accuracy of one trial in words: the number of queries whose approximate top-1
  neighbour equals the exact top-1 neighbour, divided by the 30 queries in double
  precision. The driver's \<open>accuracy\<close> is compared with it below.
\<close>

definition top1_hits :: "ndarray \<Rightarrow> ndarray \<Rightarrow> nat" where
  "top1_hits a b = length (filter (\<lambda>(x, y). hd x = hd y) (zip a b))"

definition trial_accuracy :: "ndarray \<Rightarrow> ndarray \<Rightarrow> real" where
  "trial_accuracy a b = binary64 (real (top1_hits a b) / 30)"

definition in_unit :: "real \<Rightarrow> bool" where
  "in_unit a = (0 \<le> a \<and> a \<le> 1)"

fun unit_float :: "np_float \<Rightarrow> bool" where
  "unit_float (Finite a) = in_unit a"
| "unit_float NaN = False"

subsection \<open>An example library and an example summation order\<close>

text \<open>
  A stand-in for the library whose answers depend on the keywords: it finds the exact
  neighbour of the first \<open>n_estimators\<close> queries and answers 0 for the others.
\<close>

fun estimators_of :: "kwarg list \<Rightarrow> nat" where
  "estimators_of [] = 0"
| "estimators_of (N_estimators n # _) = n"
| "estimators_of (_ # kws) = estimators_of kws"

definition example_lsh :: "kwarg list \<Rightarrow> ndarray" where
  "example_lsh kws = map (\<lambda>i. [if i < estimators_of kws then i else 0]) [0..<n_queries]"

definition example_exact :: ndarray where
  "example_exact = map (\<lambda>i. [i]) [0..<n_queries]"

text \<open>
  A summation order for lists of eight and more numbers: the first eight are added in
  pairs, the pairs in pairs, and the remaining numbers one after the other (the unrolled
  pairwise summation of ten numbers). Shorter lists are added from left to right, starting
  from 0.
\<close>

fun add_all :: "sum_order \<Rightarrow> real list \<Rightarrow> sum_order" where
  "add_all t [] = t"
| "add_all t (x # xs) = add_all (Add t (Term x)) xs"

definition pairwise_order :: "real list \<Rightarrow> sum_order" where
  "pairwise_order xs =
     (case xs of
        a0 # a1 # a2 # a3 # a4 # a5 # a6 # a7 # rest \<Rightarrow>
          add_all (Add (Add (Add (Term a0) (Term a1)) (Add (Term a2) (Term a3)))
                       (Add (Add (Term a4) (Term a5)) (Add (Term a6) (Term a7)))) rest
      | _ \<Rightarrow> add_all (Term 0) xs)"

section \<open>Properties of double-precision rounding\<close>

text \<open>
  \<open>binary64\<close> keeps the order of non-negative numbers and leaves every natural number
  below \<open>2 ^ 53\<close> unchanged.
\<close>

lemma halvings_bounds: "1 \<le> x \<Longrightarrow> 2 ^ halvings x \<le> x \<and> x < 2 ^ Suc (halvings x)"
proof (induction x rule: halvings.induct)
  case (1 x)
  show ?case
  proof (cases "x < 2")
    case True
    with "1.prems" show ?thesis by (simp add: halvings.simps[of x])
  next
    case False
    then have "1 \<le> x / 2" by simp
    with "1.IH"[OF False] have "2 ^ halvings (x / 2) \<le> x / 2" "x / 2 < 2 ^ Suc (halvings (x / 2))"
      by simp_all
    then have "2 * 2 ^ halvings (x / 2) \<le> x" "x < 2 * 2 ^ Suc (halvings (x / 2))" by linarith+
    with False show ?thesis by (simp add: halvings.simps[of x])
  qed
qed

lemma doublings_bounds:
  "0 < x \<Longrightarrow> x < 1 \<Longrightarrow> 1 \<le> 2 ^ doublings x * x \<and> 2 ^ doublings x * x < 2"
proof (induction x rule: doublings.induct)
  case (1 x)
  from "1.prems" have c: "\<not> (x \<le> 0 \<or> 1 \<le> x)" by simp
  have d: "doublings x = Suc (doublings (2 * x))" using c by (simp add: doublings.simps[of x])
  show ?case
  proof (cases "2 * x < 1")
    case True
    from "1.IH"[OF c _ True] "1.prems" show ?thesis by (simp add: d mult.assoc)
  next
    case False
    then have "doublings (2 * x) = 0" by (simp add: doublings.simps[of "2 * x"])
    with False "1.prems" show ?thesis by (simp add: d)
  qed
qed

lemma exponent_bounds:
  assumes "0 < x"
  shows "2 powi exponent x \<le> x \<and> x < 2 powi (exponent x + 1)"
proof (cases "1 \<le> x")
  case True
  from halvings_bounds[OF True] True show ?thesis
    by (simp add: exponent_def power_int_add)
next
  case False
  then have lt: "x < 1" by simp
  let ?d = "doublings x"
  from doublings_bounds[OF assms lt] have b: "1 \<le> 2 ^ ?d * x" "2 ^ ?d * x < 2" by simp_all
  have p: "(0::real) < 2 ^ ?d" by simp
  have "1 / 2 ^ ?d \<le> x" using b(1) p by (simp add: field_simps)
  moreover have "x < 2 / 2 ^ ?d" using b(2) p by (simp add: field_simps)
  moreover have "(2::real) powi (- int ?d) = 1 / 2 ^ ?d" by (simp add: power_int_minus_divide)
  moreover have "(2::real) powi (- int ?d + 1) = 2 / 2 ^ ?d"
    by (simp add: power_int_diff)
  ultimately show ?thesis using False by (simp add: exponent_def)
qed

lemma rne_bounds: "\<lfloor>m\<rfloor> \<le> rne m \<and> rne m \<le> \<lceil>m\<rceil>"
proof -
  have "rne m = \<lfloor>m\<rfloor> \<or> (rne m = \<lfloor>m\<rfloor> + 1 \<and> of_int \<lfloor>m\<rfloor> < m)"
    unfolding rne_def Let_def by (auto; linarith)
  moreover have "\<lfloor>m\<rfloor> + 1 \<le> \<lceil>m\<rceil>" if "of_int \<lfloor>m\<rfloor> < m" using that by linarith
  moreover have "\<lfloor>m\<rfloor> \<le> \<lceil>m\<rceil>" by linarith
  ultimately show ?thesis by auto
qed

lemma rne_of_int: "rne (of_int k) = k"
  by (simp add: rne_def)

lemma rne_mono:
  assumes "a \<le> b"
  shows "rne a \<le> rne b"
proof (cases "\<lfloor>a\<rfloor> = \<lfloor>b\<rfloor>")
  case True
  have d: "a - of_int \<lfloor>b\<rfloor> \<le> b - of_int \<lfloor>b\<rfloor>" using assms by simp
  show ?thesis unfolding rne_def Let_def True using d by auto
next
  case False
  have "\<lfloor>a\<rfloor> \<le> \<lfloor>b\<rfloor>" using assms by (rule floor_mono)
  with False have "\<lfloor>a\<rfloor> + 1 \<le> \<lfloor>b\<rfloor>" by simp
  moreover have "rne a \<le> \<lceil>a\<rceil>" using rne_bounds by blast
  moreover have "\<lceil>a\<rceil> \<le> \<lfloor>a\<rfloor> + 1" by linarith
  moreover have "\<lfloor>b\<rfloor> \<le> rne b" using rne_bounds by blast
  ultimately show ?thesis by linarith
qed

lemma exponent_mono:
  assumes "0 < x" "x \<le> y"
  shows "exponent x \<le> exponent y"
proof (rule ccontr)
  assume "\<not> exponent x \<le> exponent y"
  then have "exponent y + 1 \<le> exponent x" by simp
  then have "(2::real) powi (exponent y + 1) \<le> 2 powi exponent x"
    by (intro power_int_increasing) simp_all
  moreover have "y < 2 powi (exponent y + 1)" using exponent_bounds[of y] assms by simp
  moreover have "2 powi exponent x \<le> x" using exponent_bounds[OF assms(1)] by simp
  ultimately show False using assms(2) by linarith
qed

lemma quantum_pos: "0 < x \<Longrightarrow> quantum x = max (exponent x) (- 1022) - 52"
  by (simp add: quantum_def)

lemma binary64_pos:
  "0 < x \<Longrightarrow> binary64 x = of_int (rne (x / 2 powi quantum x)) * 2 powi quantum x"
  by (simp add: binary64_def)

lemma below_next_binade:
  assumes "0 < x"
  shows "x < 2 powi (quantum x + 53)"
proof -
  have "x < 2 powi (exponent x + 1)" using exponent_bounds[OF assms] by simp
  also have "(2::real) powi (exponent x + 1) \<le> 2 powi (quantum x + 53)"
    by (intro power_int_increasing) (simp_all add: quantum_pos[OF assms])
  finally show ?thesis .
qed

lemma binary64_upper:
  assumes "0 < x"
  shows "binary64 x \<le> 2 powi (quantum x + 53)"
proof -
  let ?q = "quantum x"
  have p: "(0::real) < 2 powi ?q" by simp
  have "x / 2 powi ?q < 2 powi (?q + 53) / 2 powi ?q"
    using below_next_binade[OF assms] p by (simp add: divide_strict_right_mono)
  also have "(2::real) powi (?q + 53) / 2 powi ?q = 2 ^ 53" by (simp add: power_int_add)
  finally have "x / 2 powi ?q \<le> of_int (2 ^ 53)" by simp
  then have "\<lceil>x / 2 powi ?q\<rceil> \<le> 2 ^ 53" by (simp only: ceiling_le_iff)
  moreover have "rne (x / 2 powi ?q) \<le> \<lceil>x / 2 powi ?q\<rceil>" using rne_bounds by blast
  ultimately have "rne (x / 2 powi ?q) \<le> 2 ^ 53" by linarith
  then have "(of_int (rne (x / 2 powi ?q)) :: real) \<le> of_int (2 ^ 53)" by (simp only: of_int_le_iff)
  then have "of_int (rne (x / 2 powi ?q)) * 2 powi ?q \<le> 2 ^ 53 * (2::real) powi ?q"
    using p by (simp add: mult_right_mono)
  also have "2 ^ 53 * 2 powi ?q = (2::real) powi (?q + 53)" by (simp add: power_int_add)
  finally show ?thesis by (simp add: binary64_pos[OF assms])
qed

lemma binary64_lower:
  assumes "0 < x" and "- 1022 \<le> exponent x"
  shows "2 powi exponent x \<le> binary64 x"
proof -
  let ?q = "quantum x"
  have q: "?q = exponent x - 52" using assms by (simp add: quantum_pos)
  have p: "(0::real) < 2 powi ?q" by simp
  have "2 powi exponent x \<le> x" using exponent_bounds[OF assms(1)] by simp
  then have "2 powi exponent x / 2 powi ?q \<le> x / 2 powi ?q"
    using p by (simp add: divide_right_mono)
  moreover have "(2::real) powi exponent x / 2 powi ?q = 2 ^ 52"
    by (simp add: q power_int_diff)
  ultimately have "of_int (2 ^ 52) \<le> x / 2 powi ?q" by simp
  then have "2 ^ 52 \<le> \<lfloor>x / 2 powi ?q\<rfloor>" by (simp only: le_floor_iff)
  moreover have "\<lfloor>x / 2 powi ?q\<rfloor> \<le> rne (x / 2 powi ?q)" using rne_bounds by blast
  ultimately have "2 ^ 52 \<le> rne (x / 2 powi ?q)" by linarith
  then have "(of_int (2 ^ 52) :: real) \<le> of_int (rne (x / 2 powi ?q))" by (simp only: of_int_le_iff)
  then have "2 ^ 52 * (2::real) powi ?q \<le> of_int (rne (x / 2 powi ?q)) * 2 powi ?q"
    using p by (simp add: mult_right_mono)
  moreover have "2 ^ 52 * 2 powi ?q = (2::real) powi exponent x"
    by (simp add: q power_int_diff)
  ultimately show ?thesis unfolding binary64_pos[OF assms(1)] by linarith
qed

lemma binary64_nonneg: "0 \<le> x \<Longrightarrow> 0 \<le> binary64 x"
proof (cases "x = 0")
  case True then show ?thesis by (simp add: binary64_def)
next
  case False
  assume "0 \<le> x"
  with False have x: "0 < x" by simp
  have "0 \<le> x / 2 powi quantum x" using x by simp
  then have "0 \<le> \<lfloor>x / 2 powi quantum x\<rfloor>" by simp
  with rne_bounds[of "x / 2 powi quantum x"] have "0 \<le> rne (x / 2 powi quantum x)" by linarith
  then show ?thesis by (simp add: binary64_pos[OF x])
qed

lemma binary64_mono:
  assumes "0 \<le> x" "x \<le> y"
  shows "binary64 x \<le> binary64 y"
proof (cases "x = 0")
  case True
  with assms binary64_nonneg[of y] show ?thesis by (simp add: binary64_def)
next
  case False
  with assms have x: "0 < x" and y: "0 < y" by simp_all
  have e: "exponent x \<le> exponent y" using x assms(2) by (rule exponent_mono)
  then have qle: "quantum x \<le> quantum y" by (simp add: quantum_pos x y)
  show ?thesis
  proof (cases "quantum x = quantum y")
    case True
    have p: "(0::real) < 2 powi quantum y" by simp
    have "x / 2 powi quantum y \<le> y / 2 powi quantum y"
      using assms(2) p by (simp add: divide_right_mono)
    then have "rne (x / 2 powi quantum y) \<le> rne (y / 2 powi quantum y)" by (rule rne_mono)
    then have "(of_int (rne (x / 2 powi quantum y)) :: real) \<le> of_int (rne (y / 2 powi quantum y))"
      by (simp only: of_int_le_iff)
    then have "of_int (rne (x / 2 powi quantum y)) * (2::real) powi quantum y
        \<le> of_int (rne (y / 2 powi quantum y)) * 2 powi quantum y"
      using p by (simp add: mult_right_mono)
    then show ?thesis by (simp add: binary64_pos x y True)
  next
    case False
    with qle have lt: "quantum x < quantum y" by simp
    then have ny: "- 1022 \<le> exponent y" "quantum y = exponent y - 52"
      by (simp_all add: quantum_pos x y max_def split: if_splits)
    have "binary64 x \<le> 2 powi (quantum x + 53)" using x by (rule binary64_upper)
    also have "(2::real) powi (quantum x + 53) \<le> 2 powi exponent y"
      using lt ny(2) by (intro power_int_increasing) simp_all
    also have "\<dots> \<le> binary64 y" using y ny(1) by (rule binary64_lower)
    finally show ?thesis .
  qed
qed

lemma binary64_of_nat:
  assumes "k < 2 ^ 53"
  shows "binary64 (real k) = real k"
proof (cases "k = 0")
  case True then show ?thesis by (simp add: binary64_def)
next
  case False
  then have x: "0 < real k" and one: "1 \<le> real k" by simp_all
  let ?e = "exponent (real k)"
  have e0: "0 \<le> ?e" using one by (simp add: exponent_def)
  have "2 powi ?e \<le> real k" using exponent_bounds[OF x] by simp
  also have "real k < 2 ^ 53" using assms by (metis of_nat_less_iff of_nat_numeral of_nat_power)
  finally have "(2::real) powi ?e < 2 powi 53" by simp
  then have e53: "?e < 53" by (rule power_int_le_imp_less_exp[rotated]) simp_all
  have q: "quantum (real k) = ?e - 52" using e0 by (simp add: quantum_pos[OF x])
  define n where "n = nat (52 - ?e)"
  have n: "int n = 52 - ?e" using e53 by (simp add: n_def)
  have pq: "(2::real) powi (quantum (real k)) = 1 / 2 ^ n"
  proof -
    have "quantum (real k) = - int n" using q n by simp
    then show ?thesis by (simp add: power_int_minus_divide)
  qed
  have "real k / 2 powi quantum (real k) = of_int (int (k * 2 ^ n))" by (simp add: pq)
  then have "rne (real k / 2 powi quantum (real k)) = int (k * 2 ^ n)" by (simp only: rne_of_int)
  then show ?thesis by (simp add: binary64_pos[OF x] pq)
qed

section \<open>Properties of the experiment driver\<close>

subsection \<open>Accuracies\<close>

lemma stretch_singleton_rows:
  "list_all (\<lambda>r. length r = 1) a \<Longrightarrow> map (stretch 1) a = a"
proof (induction a)
  case Nil then show ?case by simp
next
  case (Cons r a)
  then obtain x where "r = [x]" by (cases r) auto
  with Cons show ?case by (simp add: stretch_def)
qed

lemma stretch_same: "length xs = n \<Longrightarrow> stretch n xs = xs"
  by (cases xs rule: list.exhaust; cases "tl xs") (auto simp: stretch_def split: list.splits)

lemma ncols_top1: "top1_shape a \<Longrightarrow> ncols a = 1"
  by (cases a) (auto simp: top1_shape_def ncols_def nrows_def n_queries_def)

lemma np_equal_top1:
  assumes "top1_shape a" "top1_shape b"
  shows "np_equal a b = Inr (map2 (\<lambda>x y. map2 (=) x y) a b)"
proof -
  have r: "nrows a = n_queries" "nrows b = n_queries" using assms by (auto simp: top1_shape_def)
  have c: "ncols a = 1" "ncols b = 1" using assms by (auto dest: ncols_top1)
  have sa: "map (stretch 1) a = a" "map (stretch 1) b = b"
    using assms stretch_singleton_rows unfolding top1_shape_def by blast+
  have la: "length a = n_queries" "length b = n_queries" using r by (auto simp: nrows_def)
  have sa': "map (stretch (Suc 0)) a = a" "map (stretch (Suc 0)) b = b"
    using sa by simp_all
  show ?thesis
    by (simp add: np_equal_def r c broadcast_dim_def sa' stretch_same la)
qed

lemma np_sum_top1:
  "list_all (\<lambda>r. length r = 1) a \<Longrightarrow> list_all (\<lambda>r. length r = 1) b \<Longrightarrow>
   np_sum (map2 (\<lambda>x y. map2 (=) x y) a b) = top1_hits a b"
proof (induction a arbitrary: b)
  case Nil then show ?case by (simp add: np_sum_def top1_hits_def)
next
  case (Cons r a)
  show ?case
  proof (cases b)
    case Nil then show ?thesis by (simp add: np_sum_def top1_hits_def)
  next
    case (Cons s b')
    from Cons.prems obtain x where x: "r = [x]" by (cases r) auto
    from Cons.prems Cons obtain y where y: "s = [y]" by (cases s) auto
    have "np_sum (map2 (\<lambda>x y. map2 (=) x y) a b') = top1_hits a b'"
      using Cons.IH Cons.prems Cons by simp
    then show ?thesis using Cons x y by (simp add: np_sum_def top1_hits_def)
  qed
qed

lemma top1_hits_le: "top1_hits a b \<le> length a"
  unfolding top1_hits_def
  by (rule order_trans[OF length_filter_le]) simp

lemma accuracy_top1:
  assumes "top1_shape a" "top1_shape b"
  shows "accuracy a b = Inr (trial_accuracy a b)"
  using assms np_sum_top1[of a b]
  by (simp add: accuracy_def np_equal_top1 trial_accuracy_def top1_shape_def n_queries_def)

lemma binary64_0: "binary64 0 = 0"
  by (simp add: binary64_def)

lemma binary64_1: "binary64 1 = 1"
  using binary64_of_nat[of 1] by simp

lemma binary64_unit:
  assumes "0 \<le> x" "x \<le> 1"
  shows "0 \<le> binary64 x \<and> binary64 x \<le> 1"
proof -
  have "binary64 x \<le> binary64 1" using assms by (rule binary64_mono)
  with binary64_nonneg[OF assms(1)] show ?thesis by (simp add: binary64_1)
qed

lemma trial_accuracy_bounds:
  assumes "top1_shape a"
  shows "0 \<le> trial_accuracy a b \<and> trial_accuracy a b \<le> 1"
proof -
  have "top1_hits a b \<le> 30" using top1_hits_le[of a b] assms
    by (simp add: top1_shape_def nrows_def n_queries_def)
  then have "0 \<le> real (top1_hits a b) / 30" "real (top1_hits a b) / 30 \<le> 1" by simp_all
  then show ?thesis unfolding trial_accuracy_def by (rule binary64_unit)
qed

lemma for_each_total:
  "(\<And>x. x \<in> set xs \<Longrightarrow> f x = Inr (g x)) \<Longrightarrow> for_each f xs = Inr (map g xs)"
  by (induction xs) auto

lemma fl_sum_bounds:
  "length (terms t) < 2 ^ 53 \<Longrightarrow> (\<forall>x\<in>set (terms t). 0 \<le> x \<and> x \<le> 1) \<Longrightarrow>
   0 \<le> fl_sum t \<and> fl_sum t \<le> real (length (terms t))"
proof (induction t)
  case (Term x)
  then show ?case by simp
next
  case (Add l r)
  have "length (terms l) < 2 ^ 53" "\<forall>x\<in>set (terms l). 0 \<le> x \<and> x \<le> 1"
    using Add.prems by simp_all
  then have l: "0 \<le> fl_sum l \<and> fl_sum l \<le> real (length (terms l))"
    by (rule Add.IH(1))
  have "length (terms r) < 2 ^ 53" "\<forall>x\<in>set (terms r). 0 \<le> x \<and> x \<le> 1"
    using Add.prems by simp_all
  then have r: "0 \<le> fl_sum r \<and> fl_sum r \<le> real (length (terms r))"
    by (rule Add.IH(2))
  define k where "k = length (terms l) + length (terms r)"
  have kn: "k < 2 ^ 53" using Add.prems(1) by (simp add: k_def)
  have fixk: "binary64 (real k) = real k" using kn by (rule binary64_of_nat)
  have lo: "0 \<le> fl_sum l + fl_sum r" using l r by simp
  have hi: "fl_sum l + fl_sum r \<le> real k" using l r by (simp add: k_def)
  have "0 \<le> binary64 (fl_sum l + fl_sum r)" using lo by (rule binary64_nonneg)
  moreover have "binary64 (fl_sum l + fl_sum r) \<le> binary64 (real k)"
    using lo hi by (rule binary64_mono)
  moreover have "length (terms (Add l r)) = k" by (simp add: k_def)
  ultimately show ?case using fixk by simp
qed

lemma np_mean_bounds:
  assumes xs: "length xs = 10" and u: "\<forall>x\<in>set xs. 0 \<le> x \<and> x \<le> 1"
    and ord: "mset (terms (order xs)) = mset xs"
  shows "np_mean order xs = Finite (binary64 (fl_sum (order xs) / 10))
       \<and> in_unit (binary64 (fl_sum (order xs) / 10))"
proof -
  have len: "length (terms (order xs)) = 10" using mset_eq_length[OF ord] xs by simp
  have "set (terms (order xs)) = set xs" using ord by (rule mset_eq_setD)
  then have t: "\<forall>x\<in>set (terms (order xs)). 0 \<le> x \<and> x \<le> 1" using u by simp
  have "length (terms (order xs)) < 2 ^ 53" using len by simp
  from fl_sum_bounds[OF this t]
  have "0 \<le> fl_sum (order xs) / 10" "fl_sum (order xs) / 10 \<le> 1" using len by simp_all
  then have "0 \<le> binary64 (fl_sum (order xs) / 10) \<and> binary64 (fl_sum (order xs) / 10) \<le> 1"
    by (rule binary64_unit)
  moreover have "xs \<noteq> []" using xs by auto
  ultimately show ?thesis using xs by (simp add: np_mean_def in_unit_def)
qed

lemma in_concat: "x \<in> set ys \<Longrightarrow> ys \<in> set yss \<Longrightarrow> x \<in> set (concat yss)"
  by auto

lemma candidates_call_made:
  assumes "value \<in> set n_estimators_for_candidate_value" "n_candidates \<in> set n_candidates_values"
    "seed \<in> set [0..<n_iter]"
  shows "candidates_sweep_ctor value n_candidates seed \<in> set index_constructions"
proof -
  let ?G = "\<lambda>v c. map (\<lambda>s. candidates_sweep_ctor v c s) [0..<n_iter]"
  let ?F = "\<lambda>v. concat (map (\<lambda>c. ?G v c) n_candidates_values)"
  have 1: "candidates_sweep_ctor value n_candidates seed \<in> set (?G value n_candidates)"
    using assms(3) by (simp only: set_map) (rule imageI)
  have "?G value n_candidates \<in> set (map (\<lambda>c. ?G value c) n_candidates_values)"
    using assms(2) by (simp only: set_map) (rule imageI)
  with 1 have 2: "candidates_sweep_ctor value n_candidates seed \<in> set (?F value)"
    by (rule in_concat)
  have "?F value \<in> set (map ?F n_estimators_for_candidate_value)"
    using assms(1) by (simp only: set_map) (rule imageI)
  with 2 have "candidates_sweep_ctor value n_candidates seed
      \<in> set (concat (map ?F n_estimators_for_candidate_value))"
    by (rule in_concat)
  then show ?thesis unfolding index_constructions_def set_append by (rule UnI1)
qed

lemma estimators_call_made:
  assumes "n_estimators \<in> set n_estimators_values"
  shows "estimators_sweep_ctor n_estimators \<in> set index_constructions"
proof -
  have "estimators_sweep_ctor n_estimators \<in> set (map estimators_sweep_ctor n_estimators_values)"
    using assms by (simp only: set_map) (rule imageI)
  then show ?thesis unfolding index_constructions_def set_append by (rule UnI2)
qed

lemma accuracy_c_top1:
  assumes "list_all (\<lambda>kws. top1_shape (lsh kws)) index_constructions"
    and "top1_shape neighbors_exact"
    and "value \<in> set n_estimators_for_candidate_value" "n_candidates \<in> set n_candidates_values"
  shows "accuracy_c lsh neighbors_exact value n_candidates =
           Inr (map (\<lambda>seed. trial_accuracy (lsh (candidates_sweep_ctor value n_candidates seed))
                  neighbors_exact) [0..<n_iter])"
  unfolding accuracy_c_def
proof (rule for_each_total[where xs = "[0..<n_iter]"
      and g = "\<lambda>seed. trial_accuracy (lsh (candidates_sweep_ctor value n_candidates seed))
                  neighbors_exact"])
  fix seed assume "seed \<in> set [0..<n_iter]"
  then have "candidates_sweep_ctor value n_candidates seed \<in> set index_constructions"
    using assms(3,4) by (intro candidates_call_made)
  then have "top1_shape (lsh (candidates_sweep_ctor value n_candidates seed))"
    using assms(1) unfolding list_all_iff by blast
  then show "accuracy (lsh (candidates_sweep_ctor value n_candidates seed)) neighbors_exact
      = Inr (trial_accuracy (lsh (candidates_sweep_ctor value n_candidates seed)) neighbors_exact)"
    using assms(2) by (rule accuracy_top1)
qed

text \<open>
  Claim C10. When the library returns one row with one neighbour index for each of the 30
  queries at every constructor call of the program, and \<^verbatim>\<open>np.mean\<close> adds exactly the
  ten entries of its list (in whatever order), neither sweep raises, every recorded
  accuracy lies in the closed interval \<open>[0, 1]\<close>, every entry of \<open>accuracies_c\<close> is the
  double-precision mean over the 10 seeds of the per-trial accuracies (the rounded sum
  divided by 10, rounded), each per-trial accuracy being the number of hits divided by 30
  in double precision, and every entry of \<open>accuracies_trees\<close> is a single per-trial accuracy.
\<close>

theorem accuracies_in_unit_interval:
  assumes shapes: "list_all (\<lambda>kws. top1_shape (lsh kws)) index_constructions"
    and ex: "top1_shape neighbors_exact"
    and ord: "\<And>xs. length xs = n_iter \<Longrightarrow> mset (terms (order xs)) = mset xs"
  shows "\<exists>acc atr.
           accuracies_c order lsh neighbors_exact = Inr acc
         \<and> accuracies_trees lsh neighbors_exact = Inr atr
         \<and> acc = map (\<lambda>value. map (\<lambda>n_candidates.
                    Finite (binary64 (fl_sum (order (map (\<lambda>seed.
                        trial_accuracy (lsh (candidates_sweep_ctor value n_candidates seed))
                          neighbors_exact) [0..<10])) / 10)))
                  n_candidates_values) n_estimators_for_candidate_value
         \<and> atr = map (\<lambda>n_estimators.
                    trial_accuracy (lsh (estimators_sweep_ctor n_estimators)) neighbors_exact)
                  n_estimators_values
         \<and> list_all (list_all unit_float) acc
         \<and> list_all in_unit atr"
proof -
  let ?t = "\<lambda>kws. trial_accuracy (lsh kws) neighbors_exact"
  define xs where "xs = (\<lambda>v c. map (\<lambda>seed. ?t (candidates_sweep_ctor v c seed)) [0..<10])"
  define g where "g = (\<lambda>v c. binary64 (fl_sum (order (xs v c)) / 10))"
  have shape: "top1_shape (lsh kws)" if "kws \<in> set index_constructions" for kws
    using shapes that unfolding list_all_iff by blast
  have mean: "np_mean order (xs v c) = Finite (g v c) \<and> in_unit (g v c)"
    if v: "v \<in> set n_estimators_for_candidate_value" and c: "c \<in> set n_candidates_values" for v c
    unfolding g_def
  proof (rule np_mean_bounds)
    show "length (xs v c) = 10" by (simp add: xs_def)
    show "\<forall>x\<in>set (xs v c). 0 \<le> x \<and> x \<le> 1"
    proof
      fix x assume "x \<in> set (xs v c)"
      then obtain seed where s: "seed \<in> set [0..<n_iter]"
        and x: "x = ?t (candidates_sweep_ctor v c seed)"
        unfolding xs_def n_iter_def by auto
      have "top1_shape (lsh (candidates_sweep_ctor v c seed))"
        by (rule shape) (rule candidates_call_made[OF v c s])
      then show "0 \<le> x \<and> x \<le> 1" unfolding x by (rule trial_accuracy_bounds)
    qed
    show "mset (terms (order (xs v c))) = mset (xs v c)"
      by (rule ord) (simp add: xs_def n_iter_def)
  qed
  have inner: "for_each (\<lambda>c. case accuracy_c lsh neighbors_exact v c of
                          Inl e \<Rightarrow> Inl e
                        | Inr acc \<Rightarrow> Inr (np_mean order acc)) n_candidates_values
      = Inr (map (\<lambda>c. Finite (g v c)) n_candidates_values)"
    if v: "v \<in> set n_estimators_for_candidate_value" for v
  proof (rule for_each_total[where xs = n_candidates_values and g = "\<lambda>c. Finite (g v c)"])
    fix c assume c: "c \<in> set n_candidates_values"
    have "accuracy_c lsh neighbors_exact v c = Inr (xs v c)"
      unfolding xs_def using accuracy_c_top1[OF shapes ex v c] by (simp add: n_iter_def)
    then show "(case accuracy_c lsh neighbors_exact v c of
                  Inl e \<Rightarrow> Inl e
                | Inr acc \<Rightarrow> Inr (np_mean order acc)) = Inr (Finite (g v c))"
      using mean[OF v c] by simp
  qed
  have c: "accuracies_c order lsh neighbors_exact =
      Inr (map (\<lambda>v. map (\<lambda>c. Finite (g v c)) n_candidates_values)
             n_estimators_for_candidate_value)"
    unfolding accuracies_c_def
    by (rule for_each_total[where xs = n_estimators_for_candidate_value
          and g = "\<lambda>v. map (\<lambda>c. Finite (g v c)) n_candidates_values"]) (rule inner)
  have t: "accuracies_trees lsh neighbors_exact =
      Inr (map (\<lambda>n. ?t (estimators_sweep_ctor n)) n_estimators_values)"
    unfolding accuracies_trees_def
  proof (rule for_each_total[where xs = n_estimators_values
        and g = "\<lambda>n. ?t (estimators_sweep_ctor n)"])
    fix n assume "n \<in> set n_estimators_values"
    then have "top1_shape (lsh (estimators_sweep_ctor n))"
      by (intro shape estimators_call_made)
    then show "accuracy (lsh (estimators_sweep_ctor n)) neighbors_exact
        = Inr (?t (estimators_sweep_ctor n))"
      using ex by (rule accuracy_top1)
  qed
  have u1: "list_all (list_all unit_float)
      (map (\<lambda>v. map (\<lambda>c. Finite (g v c)) n_candidates_values)
         n_estimators_for_candidate_value)"
    using mean by (simp add: list_all_iff)
  have u2: "list_all in_unit (map (\<lambda>n. ?t (estimators_sweep_ctor n)) n_estimators_values)"
    unfolding list_all_iff in_unit_def
  proof
    fix a assume "a \<in> set (map (\<lambda>n. ?t (estimators_sweep_ctor n)) n_estimators_values)"
    then obtain n where n: "n \<in> set n_estimators_values" and a: "a = ?t (estimators_sweep_ctor n)"
      by auto
    have "top1_shape (lsh (estimators_sweep_ctor n))" using n by (intro shape estimators_call_made)
    then show "0 \<le> a \<and> a \<le> 1" unfolding a by (rule trial_accuracy_bounds)
  qed
  have e: "map (\<lambda>v. map (\<lambda>c. Finite (g v c)) n_candidates_values)
             n_estimators_for_candidate_value
      = map (\<lambda>value. map (\<lambda>n_candidates.
                    Finite (binary64 (fl_sum (order (map (\<lambda>seed.
                        trial_accuracy (lsh (candidates_sweep_ctor value n_candidates seed))
                          neighbors_exact) [0..<10])) / 10)))
                  n_candidates_values) n_estimators_for_candidate_value"
    by (simp add: g_def xs_def)
  from c t u1 u2 e show ?thesis by blast
qed

text \<open>
  The example: with five hits a trial records \<open>6004799503160661 / 2 ^ 55\<close>, the double
  nearest to \<open>1/6\<close>, and the mean of ten such trials is \<open>3002399751580331 / 2 ^ 54\<close>
  (printed \<^verbatim>\<open>0.16666666666666669\<close>), not \<open>1/6\<close>.
\<close>

lemma example_lsh_shape: "top1_shape (example_lsh kws)"
  by (simp add: top1_shape_def example_lsh_def nrows_def list_all_iff)

lemma example_exact_shape: "top1_shape example_exact"
  by (simp add: top1_shape_def example_exact_def nrows_def list_all_iff)

lemma terms_add_all: "terms (add_all t xs) = terms t @ xs"
  by (induction xs arbitrary: t) simp_all

lemma pairwise_order_terms:
  assumes "length xs = n_iter"
  shows "mset (terms (pairwise_order xs)) = mset xs"
proof -
  from assms obtain a0 a1 a2 a3 a4 a5 a6 a7 rest where
    xs: "xs = a0 # a1 # a2 # a3 # a4 # a5 # a6 # a7 # rest"
    unfolding n_iter_def by (auto simp: numeral_eq_Suc length_Suc_conv)
  show ?thesis unfolding xs by (simp add: pairwise_order_def terms_add_all)
qed

lemma example_trial:
  "trial_accuracy (example_lsh (estimators_sweep_ctor 5)) example_exact
     = 6004799503160661 / 36028797018963968"
  by code_simp

lemma example_mean:
  "binary64 (fl_sum (pairwise_order (map (\<lambda>seed. 6004799503160661 / 36028797018963968) [0..<10])) / 10)
     = 3002399751580331 / 18014398509481984"
  by code_simp

lemma example_lsh_seeded:
  "example_lsh (candidates_sweep_ctor v c s) = example_lsh (estimators_sweep_ctor v)"
  by (simp add: example_lsh_def candidates_sweep_ctor_def estimators_sweep_ctor_def)

lemma n_candidates_values_eval: "n_candidates_values = [10, 132, 255, 377, 500]"
  by code_simp

theorem accuracies_in_unit_interval_witness:
  "list_all (\<lambda>kws. top1_shape (example_lsh kws)) index_constructions
   \<and> top1_shape example_exact
   \<and> (\<exists>acc atr. accuracies_c pairwise_order example_lsh example_exact = Inr acc
        \<and> accuracies_trees example_lsh example_exact = Inr atr
        \<and> list_all (list_all unit_float) acc \<and> list_all in_unit atr
        \<and> atr ! 1 = 6004799503160661 / 36028797018963968
        \<and> acc ! 1 ! 1 = Finite (3002399751580331 / 18014398509481984))"
proof -
  have s: "list_all (\<lambda>kws. top1_shape (example_lsh kws)) index_constructions"
    by (simp add: list_all_iff example_lsh_shape)
  from accuracies_in_unit_interval[of example_lsh example_exact pairwise_order,
      OF s example_exact_shape pairwise_order_terms]
  obtain acc atr where
    a: "accuracies_c pairwise_order example_lsh example_exact = Inr acc"
    and t: "accuracies_trees example_lsh example_exact = Inr atr"
    and acc: "acc = map (\<lambda>value. map (\<lambda>n_candidates.
                    Finite (binary64 (fl_sum (pairwise_order (map (\<lambda>seed.
                        trial_accuracy (example_lsh (candidates_sweep_ctor value n_candidates seed))
                          example_exact) [0..<10])) / 10)))
                  n_candidates_values) n_estimators_for_candidate_value"
    and atr: "atr = map (\<lambda>n_estimators.
                    trial_accuracy (example_lsh (estimators_sweep_ctor n_estimators)) example_exact)
                  n_estimators_values"
    and u: "list_all (list_all unit_float) acc" "list_all in_unit atr"
    by blast
  have 1: "atr ! 1 = 6004799503160661 / 36028797018963968"
    unfolding atr by (simp add: n_estimators_values_def example_trial)
  have 2: "acc ! 1 ! 1 = Finite (3002399751580331 / 18014398509481984)"
    unfolding acc
    by (simp add: n_estimators_for_candidate_value_def n_candidates_values_eval
        example_lsh_seeded example_trial example_mean)
  from s example_exact_shape a t u 1 2 show ?thesis by blast
qed

subsection \<open>Constructor calls and seeds\<close>

text \<open>
  The program constructs 157 indexes, and no two of the calls pass the same keywords.
\<close>

lemma index_constructions_product:
  "index_constructions =
     map (\<lambda>(v, c, s). candidates_sweep_ctor v c s)
       (List.product n_estimators_for_candidate_value
          (List.product n_candidates_values [0..<n_iter]))
     @ map estimators_sweep_ctor n_estimators_values"
  unfolding index_constructions_def product_concat_map
  by (simp only: map_concat map_map comp_def prod.case)

lemma index_constructions_length: "length index_constructions = 157"
  unfolding index_constructions_product
  by (simp add: n_estimators_for_candidate_value_def n_candidates_values_eval
      n_iter_def n_estimators_values_def)

lemma index_constructions_distinct: "distinct index_constructions"
proof -
  let ?triples = "List.product n_estimators_for_candidate_value
          (List.product n_candidates_values [0..<n_iter])"
  have d1: "distinct ?triples"
    by (intro distinct_product)
       (simp_all add: n_estimators_for_candidate_value_def n_candidates_values_eval)
  have inj: "inj_on (\<lambda>(v, c, s). candidates_sweep_ctor v c s) (set ?triples)"
    by (auto simp: inj_on_def candidates_sweep_ctor_def)
  have a: "distinct (map (\<lambda>(v, c, s). candidates_sweep_ctor v c s) ?triples)"
    using d1 inj by (simp only: distinct_map)
  have b: "distinct (map estimators_sweep_ctor n_estimators_values)"
    by (simp add: distinct_map inj_on_def estimators_sweep_ctor_def n_estimators_values_def)
  have c: "set (map (\<lambda>(v, c, s). candidates_sweep_ctor v c s) ?triples)
      \<inter> set (map estimators_sweep_ctor n_estimators_values) = {}"
    by (auto simp: candidates_sweep_ctor_def estimators_sweep_ctor_def)
  show ?thesis unfolding index_constructions_product using a b c by (simp only: distinct_append)
qed

text \<open>
  Claim C2. The constructor calls of the \<open>n_estimators\<close> sweep pass no
  \<^verbatim>\<open>random_state\<close>: of all index constructions of the program, exactly the 150 calls
  of the \<open>n_candidates\<close> sweep thread a seed, and the 7 calls of the second sweep do not.
\<close>

theorem estimators_sweep_threads_no_seed:
  "\<not> list_all threads_seed index_constructions
   \<and> filter (\<lambda>kws. \<not> threads_seed kws) index_constructions
       = map estimators_sweep_ctor n_estimators_values
   \<and> length (filter threads_seed index_constructions) = 150"
proof -
  have seeded: "threads_seed (candidates_sweep_ctor v c s)" for v c s
    by (simp add: threads_seed_def candidates_sweep_ctor_def)
  have unseeded: "\<not> threads_seed (estimators_sweep_ctor n)" for n
    by (simp add: threads_seed_def estimators_sweep_ctor_def)
  have len: "length n_candidates_values = 5"
    by (simp add: n_candidates_values_def)
  show ?thesis
    by (simp add: index_constructions_def seeded unseeded filter_concat comp_def
        n_estimators_for_candidate_value_def n_estimators_values_def n_iter_def len
        length_concat sum_list_triv)
qed

end
